theory Spec2Isabelle
  imports Main "HOL-Library.Sublist" "HOL-Library.List_Lexorder"
begin

section \<open>Strings of code points\<close>

text \<open>
  A Python \<open>str\<close> is a sequence of Unicode code points. The punctuation glyphs of the
  loader lie outside the 8-bit range of \<open>char\<close>, so a character is its code point, a natural
  number, and a string is a list of them. \<open>lit\<close> reads an ASCII literal of the source.
\<close>

type_synonym uchar = nat
type_synonym ustring = "uchar list"

definition lit :: "string \<Rightarrow> ustring" where
  "lit s = map of_char s"

definition TAB :: uchar where "TAB = 9"
definition LF :: uchar where "LF = 10"
definition CR :: uchar where "CR = 13"
definition SPACE :: uchar where "SPACE = 32"
definition APOSTROPHE :: uchar where "APOSTROPHE = 39"

text \<open>
  \<open>str.isspace\<close> for one code point, as CPython decides it: the code points of bidirectional
  type WS, B or S and those of category Zs.
\<close>

definition py_isspace :: "uchar \<Rightarrow> bool" where
  "py_isspace c \<longleftrightarrow>
     (9 \<le> c \<and> c \<le> 13) \<or> (28 \<le> c \<and> c \<le> 32) \<or> c = 133 \<or> c = 160 \<or> c = 5760 \<or>
     (8192 \<le> c \<and> c \<le> 8202) \<or> c = 8232 \<or> c = 8233 \<or> c = 8239 \<or> c = 8287 \<or> c = 12288"

text \<open>\<open>s.strip()\<close>: leading and trailing whitespace removed.\<close>

definition py_strip :: "ustring \<Rightarrow> ustring" where
  "py_strip s = rev (dropWhile py_isspace (rev (dropWhile py_isspace s)))"

text \<open>
  \<open>s.split(sep)\<close> for a one-character separator: every occurrence of the separator ends a
  field, empty fields are kept, and the empty string gives one empty field.
\<close>

fun split_on :: "uchar \<Rightarrow> ustring \<Rightarrow> ustring list" where
  "split_on sep [] = [[]]"
| "split_on sep (c # cs) =
     (if c = sep then [] # split_on sep cs
      else (case split_on sep cs of [] \<Rightarrow> [[c]] | f # fs \<Rightarrow> (c # f) # fs))"

text \<open>
  \<open>s.split()\<close> without a separator: runs of whitespace separate the words and no empty word
  is produced. The first argument is the word read so far.
\<close>

fun split_ws_from :: "ustring \<Rightarrow> ustring \<Rightarrow> ustring list" where
  "split_ws_from cur [] = (if cur = [] then [] else [cur])"
| "split_ws_from cur (c # cs) =
     (if py_isspace c then (if cur = [] then split_ws_from [] cs else cur # split_ws_from [] cs)
      else split_ws_from (cur @ [c]) cs)"

definition py_split :: "ustring \<Rightarrow> ustring list" where
  "py_split s = split_ws_from [] s"

text \<open>
  \<open>s.lower()\<close>. The loader only compares the lowered exclude field with \<open>'y'\<close>; the single
  code point whose Unicode lower case is \<open>y\<close> is \<open>Y\<close>, so the mapping is written out for the
  ASCII capitals and leaves every other code point as it is.
\<close>

definition lower_char :: "uchar \<Rightarrow> uchar" where
  "lower_char c = (if 65 \<le> c \<and> c \<le> 90 then c + 32 else c)"

definition py_lower :: "ustring \<Rightarrow> ustring" where
  "py_lower s = map lower_char s"

text \<open>\<open>sep.join(xs)\<close>.\<close>

fun py_join :: "ustring \<Rightarrow> ustring list \<Rightarrow> ustring" where
  "py_join sep [] = []"
| "py_join sep [x] = x"
| "py_join sep (x # y # ys) = x @ sep @ py_join sep (y # ys)"

text \<open>
  \<open>needle in hay\<close> on two strings is the substring test: the needle occurs in the haystack
  as a contiguous run, starting at some position.
\<close>

fun str_in :: "ustring \<Rightarrow> ustring \<Rightarrow> bool" where
  "str_in needle [] = (needle = [])"
| "str_in needle (h # hs) = (take (length needle) (h # hs) = needle \<or> str_in needle hs)"

text \<open>\<open>str(n)\<close> for a length: the decimal digits.\<close>

function show_nat :: "nat \<Rightarrow> ustring" where
  "show_nat n = (if n < 10 then [48 + n] else show_nat (n div 10) @ [48 + n mod 10])"
  by pat_completeness auto
termination
  by (relation "measure (\<lambda>n. n)") auto

declare show_nat.simps [simp del]

text \<open>\<open>f"{word:<10}"\<close>: the word, then spaces up to the width; a longer word is left whole.\<close>

definition ljust :: "nat \<Rightarrow> ustring \<Rightarrow> ustring" where
  "ljust width w = w @ replicate (width - length w) SPACE"

section \<open>Output and termination of the process\<close>

text \<open>
  Standard output is the text printed so far. \<open>print(s)\<close> appends the string and a newline.
  A call that ends the process is a value: \<open>SysExit printed status\<close> for \<open>sys.exit(status)\<close>
  after the call printed \<open>printed\<close>, and \<open>KeyError\<close> for the lookup of a missing key, which
  nothing in the program catches.
\<close>

definition print :: "ustring \<Rightarrow> ustring" where
  "print s = s @ [LF]"

datatype abort = SysExit ustring nat | KeyError ustring

section \<open>The book-code table\<close>

definition book_table :: "(ustring \<times> ustring) list" where
  "book_table =
    [(lit ''GEN'', lit ''01''), (lit ''EXO'', lit ''02''), (lit ''LEV'', lit ''03''),
     (lit ''NUM'', lit ''04''), (lit ''DEU'', lit ''05''), (lit ''JOS'', lit ''06''),
     (lit ''JDG'', lit ''07''), (lit ''RUT'', lit ''08''), (lit ''1SA'', lit ''09''),
     (lit ''2SA'', lit ''10''), (lit ''1KI'', lit ''11''), (lit ''2KI'', lit ''12''),
     (lit ''1CH'', lit ''13''), (lit ''2CH'', lit ''14''), (lit ''EZR'', lit ''15''),
     (lit ''NEH'', lit ''16''), (lit ''EST'', lit ''17''), (lit ''JOB'', lit ''18''),
     (lit ''PSA'', lit ''19''), (lit ''PRO'', lit ''20''), (lit ''ECC'', lit ''21''),
     (lit ''SNG'', lit ''22''), (lit ''ISA'', lit ''23''), (lit ''JER'', lit ''24''),
     (lit ''LAM'', lit ''25''), (lit ''EZK'', lit ''26''), (lit ''DAN'', lit ''27''),
     (lit ''HOS'', lit ''28''), (lit ''JOL'', lit ''29''), (lit ''AMO'', lit ''30''),
     (lit ''OBA'', lit ''31''), (lit ''JON'', lit ''32''), (lit ''MIC'', lit ''33''),
     (lit ''NAM'', lit ''34''), (lit ''HAB'', lit ''35''), (lit ''ZEP'', lit ''36''),
     (lit ''HAG'', lit ''37''), (lit ''ZEC'', lit ''38''), (lit ''MAL'', lit ''39''),
     (lit ''MAT'', lit ''40''), (lit ''MRK'', lit ''41''), (lit ''LUK'', lit ''42''),
     (lit ''JHN'', lit ''43''), (lit ''ACT'', lit ''44''), (lit ''ROM'', lit ''45''),
     (lit ''1CO'', lit ''46''), (lit ''2CO'', lit ''47''), (lit ''GAL'', lit ''48''),
     (lit ''EPH'', lit ''49''), (lit ''PHP'', lit ''50''), (lit ''COL'', lit ''51''),
     (lit ''1TH'', lit ''52''), (lit ''2TH'', lit ''53''), (lit ''1TI'', lit ''54''),
     (lit ''2TI'', lit ''55''), (lit ''TIT'', lit ''56''), (lit ''PHM'', lit ''57''),
     (lit ''HEB'', lit ''58''), (lit ''JAS'', lit ''59''), (lit ''1PE'', lit ''60''),
     (lit ''2PE'', lit ''61''), (lit ''1JN'', lit ''62''), (lit ''2JN'', lit ''63''),
     (lit ''3JN'', lit ''64''), (lit ''JUD'', lit ''65''), (lit ''REV'', lit ''66'')]"

definition USFM_TO_BOOK_NUM :: "ustring \<rightharpoonup> ustring" where
  "USFM_TO_BOOK_NUM = map_of book_table"

section \<open>The argument resolver\<close>

text \<open>\<open>sys.argv\<close> holds the program's name and then the arguments.\<close>

definition usage_text :: ustring where
  "usage_text =
     print (lit ''Usage: python vocabfind.py \"BOOK1 BOOK2 ...\" \"BOOK3 BOOK4 ...\"'') @
     print (lit ''Example: python vocabfind.py \"MAT MRK LUK ACT ROM\" \"GAL PHP\"'')"

fun parse_arguments :: "ustring list \<Rightarrow> abort + (ustring list \<times> ustring list)" where
  "parse_arguments [prog, a, b] = Inr (py_split a, py_split b)"
| "parse_arguments argv = Inl (SysExit usage_text 1)"

definition invalid_books :: "ustring list \<Rightarrow> ustring list" where
  "invalid_books books = filter (\<lambda>book. USFM_TO_BOOK_NUM book = None) books"

definition validate_books :: "ustring list \<Rightarrow> abort + unit" where
  "validate_books books =
     (if invalid_books books \<noteq> [] then
        Inl (SysExit
          (print (lit ''Error: Unrecognized book abbreviations: '' @
                  py_join (lit '', '') (invalid_books books)) @
           print (lit ''Valid abbreviations include: GEN, EXO, MAT, MRK, ROM, etc.''))
          1)
      else Inr ())"

fun get_book_prefixes :: "ustring list \<Rightarrow> abort + ustring list" where
  "get_book_prefixes [] = Inr []"
| "get_book_prefixes (book # books) =
     (case USFM_TO_BOOK_NUM book of
        None \<Rightarrow> Inl (KeyError book)
      | Some p \<Rightarrow>
          (case get_book_prefixes books of
             Inl e \<Rightarrow> Inl e
           | Inr ps \<Rightarrow> Inr (p # ps)))"

section \<open>The vocabulary loader\<close>

text \<open>
  What \<open>open\<close> and the reads find under a name: no such file, a file that cannot be read
  (the exception's text is kept), or the decoded text of the file.
\<close>

datatype file_state = NotFound | Unreadable ustring | Contents ustring

text \<open>
  A text file opened with the default \<open>newline\<close> setting translates \<open>\r\n\<close> and a lone \<open>\r\<close>
  into \<open>\n\<close>.
\<close>

fun universal_newlines :: "ustring \<Rightarrow> ustring" where
  "universal_newlines [] = []"
| "universal_newlines [c] = (if c = CR then [LF] else [c])"
| "universal_newlines (c # d # ds) =
     (if c = CR then
        (if d = LF then LF # universal_newlines ds else LF # universal_newlines (d # ds))
      else c # universal_newlines (d # ds))"

text \<open>
  Iterating over the file yields its lines, each with its newline; the last line has none
  when the text does not end in one, and an empty text has no line.
\<close>

fun readlines :: "ustring \<Rightarrow> ustring list" where
  "readlines [] = []"
| "readlines (c # cs) =
     (if c = LF then [LF] # readlines cs
      else (case readlines cs of [] \<Rightarrow> [[c]] | l # ls \<Rightarrow> (c # l) # ls))"

definition file_lines :: "ustring \<Rightarrow> ustring list" where
  "file_lines txt = readlines (universal_newlines txt)"

text \<open>
  The string of the punctuation test: the two adjacent literals of the source, joined.
  Its code points are the full-width comma, full stop, semicolon, colon, question mark and
  exclamation mark, two ASCII double quotes, and the brackets.
\<close>

definition PUNCTUATION :: ustring where
  "PUNCTUATION =
     [65292, 12290, 65307, 65306, 65311, 65281, 34, 34,
      65288, 65289, 12304, 12305, 12298, 12299]"

text \<open>The fields of a line, as the loop body computes them.\<close>

definition fields :: "ustring \<Rightarrow> ustring list" where
  "fields line = split_on TAB (py_strip line)"

text \<open>The body of the loop over the data lines: the set after one line.\<close>

definition process_line :: "ustring list \<Rightarrow> ustring \<Rightarrow> ustring set \<Rightarrow> ustring set" where
  "process_line book_prefixes line vocabulary =
     (let parts = fields line in
      if length parts < 8 then vocabulary
      else
        let id_field = parts ! 0;
            text = parts ! 2;
            exclude = (if length parts > 4 then parts ! 4 else [])
        in
          if py_lower (py_strip exclude) = lit ''y'' then vocabulary
          else if length id_field \<ge> 2 then
            (let book_num = take 2 id_field in
             if book_num \<in> set book_prefixes then
               (if py_strip text \<noteq> [] \<and> \<not> str_in (py_strip text) PUNCTUATION
                then insert (py_strip text) vocabulary
                else vocabulary)
             else vocabulary)
          else vocabulary)"

text \<open>
  \<open>next(file)\<close> on a file without a line raises \<open>StopIteration\<close>, whose text is empty; the
  handler for \<open>Exception\<close> catches it.
\<close>

definition load_vocabulary ::
  "(ustring \<Rightarrow> file_state) \<Rightarrow> ustring \<Rightarrow> ustring list \<Rightarrow> abort + ustring set" where
  "load_vocabulary fs filename book_prefixes =
     (case fs filename of
        NotFound \<Rightarrow>
          Inl (SysExit
            (print (lit ''Error: File '' @ [APOSTROPHE] @ filename @ [APOSTROPHE] @
                    lit '' not found.'') @
             print (lit ''Make sure '' @ [APOSTROPHE] @ lit ''token_OCCB-simplified.tsv'' @
                    [APOSTROPHE] @ lit '' is in the current directory.''))
            1)
      | Unreadable e \<Rightarrow> Inl (SysExit (print (lit ''Error reading file: '' @ e)) 1)
      | Contents txt \<Rightarrow>
          (case file_lines txt of
             [] \<Rightarrow> Inl (SysExit (print (lit ''Error reading file: '')) 1)
           | header # rest \<Rightarrow> Inr (fold (process_line book_prefixes) rest {})))"

section \<open>The difference and the report\<close>

text \<open>The words of the second group that the first group does not have.\<close>

definition unique_vocab :: "ustring set \<Rightarrow> ustring set \<Rightarrow> ustring set" where
  "unique_vocab first_vocab second_vocab = second_vocab - first_vocab"

text \<open>
  The loop over the sorted words, numbered from \<open>i\<close>: each word is printed in its field without
  a newline, and a newline follows every word whose number is a multiple of six.
\<close>

fun print_columns :: "nat \<Rightarrow> ustring list \<Rightarrow> ustring" where
  "print_columns i [] = []"
| "print_columns i (word # rest) =
     ljust 10 word @ (if i mod 6 = 0 then print [] else []) @ print_columns (Suc i) rest"

text \<open>
  The last part of \<open>main\<close>: the word list or the notice. \<open>sorted\<close> orders strings by code
  points, a proper prefix first, which is the lexicographic order of lists.
\<close>

definition report :: "ustring list \<Rightarrow> ustring set \<Rightarrow> ustring" where
  "report second_books unique =
     (if unique \<noteq> {} then
        (let sorted_vocab = sorted_list_of_set unique in
           print ([LF] @ lit ''Unique vocabulary found in '' @
                  py_join (lit '' '') second_books @ lit '':'') @
           print (replicate 40 (of_char CHR ''-'')) @
           print_columns 1 sorted_vocab @
           (if length sorted_vocab mod 6 \<noteq> 0 then print [] else []) @
           print ([LF] @ lit ''Total unique words: '' @ show_nat (card unique)))
      else
        print ([LF] @ lit ''No unique vocabulary found in '' @
               py_join (lit '' '') second_books @ lit ''.'') @
        print (lit ''All words in the second set also appear in the first set.''))"

section \<open>The program\<close>

text \<open>
  What the process leaves behind: its standard output and its exit status. An exception that
  nothing catches ends the process with status 1.
\<close>

definition stop :: "ustring \<Rightarrow> abort \<Rightarrow> ustring \<times> nat" where
  "stop out a =
     (case a of SysExit printed status \<Rightarrow> (out @ printed, status) | KeyError k \<Rightarrow> (out, 1))"

definition CORPUS :: ustring where
  "CORPUS = lit ''token_OCCB-simplified.tsv''"

definition banner :: ustring where
  "banner = print (lit ''Bible Vocabulary Finder'') @ print (replicate 50 (of_char CHR ''=''))"

definition main :: "ustring list \<Rightarrow> (ustring \<Rightarrow> file_state) \<Rightarrow> ustring \<times> nat" where
  "main argv fs =
     (case parse_arguments argv of
        Inl a \<Rightarrow> stop banner a
      | Inr (first_books, second_books) \<Rightarrow>
     (case validate_books (first_books @ second_books) of
        Inl a \<Rightarrow> stop banner a
      | Inr _ \<Rightarrow>
     (case get_book_prefixes first_books of
        Inl a \<Rightarrow> stop banner a
      | Inr first_prefixes \<Rightarrow>
     (case get_book_prefixes second_books of
        Inl a \<Rightarrow> stop banner a
      | Inr second_prefixes \<Rightarrow>
     (let out1 = banner @
            print (lit ''First set of books: '' @ py_join (lit '' '') first_books) @
            print (lit ''Second set of books: '' @ py_join (lit '' '') second_books) @
            print [] @
            print (lit ''Loading vocabulary from first set...'')
      in
      case load_vocabulary fs CORPUS first_prefixes of
        Inl a \<Rightarrow> stop out1 a
      | Inr first_vocab \<Rightarrow>
     (let out2 = out1 @ print (lit ''Loading vocabulary from second set...'')
      in
      case load_vocabulary fs CORPUS second_prefixes of
        Inl a \<Rightarrow> stop out2 a
      | Inr second_vocab \<Rightarrow>
     (let unique = unique_vocab first_vocab second_vocab
      in
        (out2 @
         print ([LF] @ lit ''Vocabulary Statistics:'') @
         print (lit ''Words in first set: '' @ show_nat (card first_vocab)) @
         print (lit ''Words in second set: '' @ show_nat (card second_vocab)) @
         print (lit ''Unique words in second set: '' @ show_nat (card unique)) @
         report second_books unique,
         0))))))))"

section \<open>A sample corpus\<close>

text \<open>
  The scenario of the specification, used where a statement is tried on a concrete file: a
  header and four records of eight fields, three of the book with prefix 40 and one of the
  book with prefix 01. The text of the first record is surrounded by spaces, and the last
  record is flagged for exclusion with a capital \<open>Y\<close>.
\<close>

definition sample_row :: "ustring list \<Rightarrow> ustring" where
  "sample_row fs = py_join [TAB] fs @ [LF]"

definition sample_header :: ustring where
  "sample_header = sample_row [lit ''id'', lit ''ref'', lit ''text'', lit ''pos'',
                               lit ''exclude'', lit ''lemma'', lit ''gloss'', lit ''note'']"

definition sample_rows :: "ustring list" where
  "sample_rows =
     [sample_row [lit ''40001001'', lit ''a'', lit '' the '', lit ''b'', [], lit ''c'', lit ''d'', lit ''e''],
      sample_row [lit ''40001002'', lit ''a'', lit ''kingdom'', lit ''b'', [], lit ''c'', lit ''d'', lit ''e''],
      sample_row [lit ''01001001'', lit ''a'', lit ''the'', lit ''b'', [], lit ''c'', lit ''d'', lit ''e''],
      sample_row [lit ''40001003'', lit ''a'', lit ''selah'', lit ''b'', lit ''Y'', lit ''c'', lit ''d'', lit ''e'']]"

definition sample_corpus :: ustring where
  "sample_corpus = concat (sample_header # sample_rows)"

definition sample_fs :: "ustring \<Rightarrow> file_state" where
  "sample_fs name = (if name = CORPUS then Contents sample_corpus else NotFound)"

text \<open>A record of seven fields, files that hold it or nothing, and seven fields of a line.\<close>

definition short_row :: ustring where
  "short_row = sample_row [lit ''40001003'', lit ''a'', lit ''word'', lit ''b'', [], lit ''c'', lit ''d'']"

definition ragged_fs :: "ustring \<Rightarrow> file_state" where
  "ragged_fs name = (if name = CORPUS then Contents (sample_header @ short_row) else NotFound)"

definition empty_fs :: "ustring \<Rightarrow> file_state" where
  "empty_fs name = Contents []"

definition seven_fields :: ustring where
  "seven_fields = py_join [TAB] [lit ''40001004'', lit ''a'', lit ''word'', lit ''b'', [], lit ''c'', lit ''d'']"

text \<open>Seven words for the report, and two tokens for the punctuation test.\<close>

definition seven_words :: "ustring set" where
  "seven_words = {lit ''a'', lit ''b'', lit ''c'', lit ''d'', lit ''e'', lit ''f'', lit ''g''}"

definition comma_stop :: ustring where
  "comma_stop = [65292, 12290]"

definition comma_hello :: ustring where
  "comma_hello = [65292] @ lit ''hello''"

section \<open>The inclusion rule in the specification's words\<close>

text \<open>
  The four conditions under which the specification lets a record contribute its trimmed
  text, stated on the list of the record's fields: the first two characters of the id
  (field 0) are one of the group's prefixes; the exclude field (field 4), trimmed, is
  neither \<open>y\<close> nor \<open>Y\<close>; the trimmed text (field 2) is not empty; and the trimmed text
  is not a contiguous run of the punctuation string. Nothing of the loader is used here:
  the fields are an argument, so that the rule can be asked of the tab-separated fields
  of the line as it stands in the file and of the fields of the trimmed line, which is
  what the loader splits.
\<close>

definition included :: "ustring list \<Rightarrow> ustring list \<Rightarrow> bool" where
  "included book_prefixes parts \<longleftrightarrow>
     take 2 (parts ! 0) \<in> set book_prefixes \<and>
     py_strip (parts ! 4) \<noteq> lit ''y'' \<and> py_strip (parts ! 4) \<noteq> lit ''Y'' \<and>
     py_strip (parts ! 2) \<noteq> [] \<and>
     \<not> sublist (py_strip (parts ! 2)) PUNCTUATION"

section \<open>The layout of the word list in the specification's words\<close>

text \<open>
  The rows of a list printed six to a line: the first six elements, then the rows of the
  rest; the last row holds what is left. A row is printed as its words, each in its field,
  and a newline. Both are compared with \<open>print_columns\<close> below.
\<close>

function six_per_row :: "'a list \<Rightarrow> 'a list list" where
  "six_per_row ws = (if ws = [] then [] else take 6 ws # six_per_row (drop 6 ws))"
  by pat_completeness auto
termination
  by (relation "measure length") auto

declare six_per_row.simps [simp del]

definition render_row :: "ustring list \<Rightarrow> ustring" where
  "render_row ws = print (concat (map (ljust 10) ws))"

section \<open>Facts about the string operations\<close>

lemma split_on_not_Nil: "split_on sep s \<noteq> []"
  by (induction s) (auto split: list.splits)

lemma length_split_on: "length (split_on sep s) = Suc (count_list s sep)"
  by (induction s) (auto simp: split_on_not_Nil split: list.splits)

lemma count_list_dropWhile: "count_list (dropWhile P xs) c \<le> count_list xs c"
  by (induction xs) auto

lemma count_list_py_strip: "count_list (py_strip s) c \<le> count_list s c"
proof -
  have "count_list (py_strip s) c = count_list (dropWhile py_isspace (rev (dropWhile py_isspace s))) c"
    by (simp add: py_strip_def)
  also have "\<dots> \<le> count_list (rev (dropWhile py_isspace s)) c"
    by (rule count_list_dropWhile)
  also have "\<dots> = count_list (dropWhile py_isspace s) c"
    by simp
  also have "\<dots> \<le> count_list s c"
    by (rule count_list_dropWhile)
  finally show ?thesis .
qed

lemma py_strip_append_space:
  assumes "\<forall>c\<in>set w. py_isspace c"
  shows "py_strip (x @ w) = py_strip x"
proof (cases "\<forall>c\<in>set x. py_isspace c")
  case True
  with assms have "\<forall>c\<in>set (x @ w). py_isspace c"
    by auto
  then have "dropWhile py_isspace (x @ w) = []"
    by (simp only: dropWhile_eq_Nil_conv)
  moreover from True have "dropWhile py_isspace x = []"
    by (simp only: dropWhile_eq_Nil_conv)
  ultimately show ?thesis by (simp only: py_strip_def)
next
  case False
  then obtain c where "c \<in> set x" and "\<not> py_isspace c" by blast
  then have "dropWhile py_isspace (x @ w) = dropWhile py_isspace x @ w"
    by simp
  moreover have "dropWhile py_isspace (rev w @ rev (dropWhile py_isspace x)) =
                 dropWhile py_isspace (rev (dropWhile py_isspace x))"
    by (rule dropWhile_append2) (use assms in auto)
  ultimately show ?thesis by (simp add: py_strip_def)
qed

lemma py_strip_idem: "py_strip (py_strip s) = py_strip s"
proof -
  define t where "t = dropWhile py_isspace s"
  define u where "u = dropWhile py_isspace (rev t)"
  have s: "py_strip s = rev u"
    by (simp add: py_strip_def t_def u_def)
  show ?thesis
  proof (cases "u = []")
    case True
    with s have "py_strip s = []" by simp
    moreover have "py_strip [] = []" by (simp add: py_strip_def)
    ultimately show ?thesis by simp
  next
    case False
    then have hu: "\<not> py_isspace (hd u)"
      unfolding u_def by (rule hd_dropWhile)
    from False have t: "t \<noteq> []"
      by (auto simp: u_def)
    then have ht: "\<not> py_isspace (hd t)"
      unfolding t_def by (rule hd_dropWhile)
    have "last u = hd t"
      using False t by (metis u_def dropWhile_eq_Nil_conv dropWhile_last last_rev)
    with False have "hd (rev u) = hd t"
      by (simp add: hd_rev)
    with ht False have a: "dropWhile py_isspace (rev u) = rev u"
      by (simp add: dropWhile_eq_self_iff)
    from hu have b: "dropWhile py_isspace u = u"
      by (simp add: dropWhile_eq_self_iff)
    have "py_strip (rev u) = rev u"
      by (simp only: py_strip_def a b rev_rev_ident)
    then show ?thesis
      by (simp only: s)
  qed
qed

lemma py_strip_ends:
  assumes "py_strip s \<noteq> []"
  shows "\<not> py_isspace (hd (py_strip s)) \<and> \<not> py_isspace (last (py_strip s))"
proof -
  define t where "t = dropWhile py_isspace s"
  define u where "u = dropWhile py_isspace (rev t)"
  have s: "py_strip s = rev u"
    by (simp add: py_strip_def t_def u_def)
  with assms have u: "u \<noteq> []" by simp
  then have hu: "\<not> py_isspace (hd u)"
    unfolding u_def by (rule hd_dropWhile)
  from u have t: "t \<noteq> []"
    by (auto simp: u_def)
  then have ht: "\<not> py_isspace (hd t)"
    unfolding t_def by (rule hd_dropWhile)
  have "last u = hd t"
    using u t by (metis u_def dropWhile_eq_Nil_conv dropWhile_last last_rev)
  with u ht hu show ?thesis
    by (simp add: s hd_rev last_rev)
qed

lemma py_lower_y: "py_lower s = lit ''y'' \<longleftrightarrow> s = lit ''y'' \<or> s = lit ''Y''"
proof (cases s)
  case Nil
  then show ?thesis by (simp add: py_lower_def lit_def)
next
  case (Cons c cs)
  have "lower_char c = 121 \<longleftrightarrow> c = 121 \<or> c = 89"
    by (auto simp: lower_char_def)
  with Cons show ?thesis
    by (auto simp: py_lower_def lit_def)
qed

lemma sublist_py_join: "x \<in> set xs \<Longrightarrow> sublist x (py_join sep xs)"
proof (induction sep xs rule: py_join.induct)
  case (1 sep)
  then show ?case by simp
next
  case (2 sep y)
  then show ?case by simp
next
  case (3 sep y z zs)
  show ?case
  proof (cases "x = y")
    case True
    then show ?thesis by simp
  next
    case False
    with "3.prems" have "sublist x (py_join sep (z # zs))"
      using "3.IH" by simp
    then obtain ps ss where "py_join sep (z # zs) = ps @ x @ ss"
      by (auto simp: sublist_def)
    then have "py_join sep (y # z # zs) = (y @ sep @ ps) @ x @ ss"
      by simp
    then show ?thesis
      unfolding sublist_def by blast
  qed
qed

lemma str_in_sublist: "str_in needle hay \<longleftrightarrow> sublist needle hay"
proof (induction hay)
  case Nil
  show ?case by simp
next
  case (Cons h hs)
  have "take (length needle) (h # hs) = needle \<longleftrightarrow> prefix needle (h # hs)"
  proof
    assume "take (length needle) (h # hs) = needle"
    then have "h # hs = needle @ drop (length needle) (h # hs)"
      by (metis append_take_drop_id)
    then show "prefix needle (h # hs)"
      by (rule prefixI)
  next
    assume "prefix needle (h # hs)"
    then obtain zs where "h # hs = needle @ zs"
      by (rule prefixE)
    then show "take (length needle) (h # hs) = needle"
      by (metis append_eq_conv_conj)
  qed
  with Cons show ?case
    by (simp add: sublist_Cons_right)
qed

lemma sublist_singleton: "sublist [c] xs \<longleftrightarrow> c \<in> set xs"
proof
  assume "sublist [c] xs"
  then have "set [c] \<subseteq> set xs" by (rule set_mono_sublist)
  then show "c \<in> set xs" by simp
next
  assume "c \<in> set xs"
  then obtain ys zs where "xs = ys @ [c] @ zs"
    by (auto dest: split_list)
  then show "sublist [c] xs"
    unfolding sublist_def by blast
qed

lemma replicate_9: "replicate 9 x = [x, x, x, x, x, x, x, x, x]"
  by (simp add: numeral_eq_Suc)

lemma replicate_3: "replicate 3 x = [x, x, x]"
  by (simp add: numeral_eq_Suc)

lemma length_ljust: "length (ljust 10 w) = max 10 (length w)"
  by (simp add: ljust_def)

lemma prefix_ljust: "prefix w (ljust 10 w)"
  by (simp add: ljust_def)

section \<open>Facts about the loop of the loader\<close>

lemma process_line_cases:
  "process_line book_prefixes line V = V \<or>
   (\<exists>t. py_strip t \<noteq> [] \<and> process_line book_prefixes line V = insert (py_strip t) V)"
  by (auto simp: process_line_def Let_def)

lemma process_line_short:
  "length (fields line) < 8 \<Longrightarrow> process_line book_prefixes line V = V"
  by (simp add: process_line_def Let_def)

lemma process_line_trimmed:
  assumes "\<forall>w\<in>V. w \<noteq> [] \<and> py_strip w = w"
  shows "\<forall>w\<in>process_line book_prefixes line V. w \<noteq> [] \<and> py_strip w = w"
proof -
  consider (skip) "process_line book_prefixes line V = V"
    | (add) t where "py_strip t \<noteq> []"
        and "process_line book_prefixes line V = insert (py_strip t) V"
    using process_line_cases [of book_prefixes line V] by blast
  then show ?thesis
  proof cases
    case skip
    with assms show ?thesis by simp
  next
    case add
    with assms show ?thesis by (simp add: py_strip_idem)
  qed
qed

lemma fold_process_line_trimmed:
  assumes "\<forall>w\<in>V. w \<noteq> [] \<and> py_strip w = w"
  shows "\<forall>w\<in>fold (process_line book_prefixes) ls V. w \<noteq> [] \<and> py_strip w = w"
  using assms
proof (induction ls arbitrary: V)
  case Nil
  then show ?case by simp
next
  case (Cons l ls)
  from Cons.prems have "\<forall>w\<in>process_line book_prefixes l V. w \<noteq> [] \<and> py_strip w = w"
    by (rule process_line_trimmed)
  then have "\<forall>w\<in>fold (process_line book_prefixes) ls (process_line book_prefixes l V).
               w \<noteq> [] \<and> py_strip w = w"
    by (rule Cons.IH)
  then show ?case by simp
qed

lemma fold_process_line_finite:
  "finite V \<Longrightarrow> finite (fold (process_line book_prefixes) ls V)"
proof (induction ls arbitrary: V)
  case Nil
  then show ?case by simp
next
  case (Cons l ls)
  have "finite (process_line book_prefixes l V)"
    using process_line_cases [of book_prefixes l V] Cons.prems by auto
  then show ?case using Cons.IH by simp
qed

lemma process_line_step:
  assumes "\<forall>p\<in>set book_prefixes. length p = 2" and "8 \<le> length (fields line)"
  shows "process_line book_prefixes line V =
           (if included book_prefixes (fields line)
            then insert (py_strip (fields line ! 2)) V else V)"
proof -
  have "2 \<le> length (fields line ! 0)" if "take 2 (fields line ! 0) \<in> set book_prefixes"
  proof -
    from that assms(1) have "length (take 2 (fields line ! 0)) = 2" by blast
    then show ?thesis by simp
  qed
  with assms(2) show ?thesis
    by (auto simp: process_line_def included_def Let_def py_lower_y str_in_sublist)
qed

lemma fold_process_line:
  assumes "\<forall>p\<in>set book_prefixes. length p = 2"
  shows "fold (process_line book_prefixes) ls V =
           V \<union> {py_strip (fields line ! 2) | line.
                  line \<in> set ls \<and> 8 \<le> length (fields line) \<and>
                  included book_prefixes (fields line)}"
proof (induction ls arbitrary: V)
  case Nil
  show ?case by simp
next
  case (Cons l ls)
  show ?case
  proof (cases "8 \<le> length (fields l)")
    case True
    then show ?thesis
      using Cons.IH process_line_step [OF assms True] by auto
  next
    case False
    then have "process_line book_prefixes l V = V"
      by (simp add: process_line_short)
    with False show ?thesis using Cons.IH by auto
  qed
qed

lemmas eval_defs = fields_def sample_row_def lit_def py_strip_def py_isspace_def TAB_def LF_def CR_def
  py_lower_def lower_char_def PUNCTUATION_def

lemma sample_lines: "file_lines sample_corpus = sample_header # sample_rows"
  by (simp add: file_lines_def sample_corpus_def sample_header_def sample_rows_def sample_row_def
        lit_def TAB_def LF_def CR_def)

lemma sample_load:
  "load_vocabulary sample_fs CORPUS [lit ''40''] = Inr {lit ''kingdom'', lit ''the''}"
  by (simp add: load_vocabulary_def sample_fs_def sample_lines sample_rows_def process_line_def
        Let_def eval_defs)

lemma ragged_lines: "file_lines (sample_header @ short_row) = sample_header # [] @ short_row # []"
  by (simp add: file_lines_def sample_header_def short_row_def sample_row_def
        lit_def TAB_def LF_def CR_def)

lemma short_row_fields: "length (fields short_row) = 7"
  by (simp add: short_row_def eval_defs)

section \<open>The table and the resolver\<close>

lemma lookup_MAT: "USFM_TO_BOOK_NUM (lit ''MAT'') = Some (lit ''40'')"
  by (simp add: USFM_TO_BOOK_NUM_def book_table_def lit_def)

lemma lookup_GEN: "USFM_TO_BOOK_NUM (lit ''GEN'') = Some (lit ''01'')"
  by (simp add: USFM_TO_BOOK_NUM_def book_table_def lit_def)

lemma lookup_XYZ: "USFM_TO_BOOK_NUM (lit ''XYZ'') = None"
  by (simp add: USFM_TO_BOOK_NUM_def book_table_def lit_def)

lemma invalid_books_empty_iff:
  "invalid_books books = [] \<longleftrightarrow> (\<forall>book\<in>set books. book \<in> dom USFM_TO_BOOK_NUM)"
  by (auto simp: invalid_books_def filter_empty_conv)

lemma get_book_prefixes_valid:
  "invalid_books books = [] \<Longrightarrow>
     get_book_prefixes books = Inr (map (\<lambda>book. the (USFM_TO_BOOK_NUM book)) books)"
  by (induction books) (auto simp: invalid_books_def split: if_splits)

lemma book_table_values: "\<forall>(k, v)\<in>set book_table. length v = 2"
  by (simp add: book_table_def lit_def)

lemma get_book_prefixes_length:
  "get_book_prefixes books = Inr ps \<Longrightarrow> \<forall>p\<in>set ps. length p = 2"
proof (induction books arbitrary: ps)
  case Nil
  then show ?case by simp
next
  case (Cons b bs)
  then obtain p qs where p: "USFM_TO_BOOK_NUM b = Some p"
    and qs: "get_book_prefixes bs = Inr qs" and ps: "ps = p # qs"
    by (auto split: option.splits sum.splits)
  from p have "(b, p) \<in> set book_table"
    by (simp add: USFM_TO_BOOK_NUM_def map_of_SomeD)
  with book_table_values have "length p = 2" by blast
  with Cons.IH [OF qs] ps show ?case by simp
qed

lemma lookup_QQQ: "USFM_TO_BOOK_NUM (lit ''QQQ'') = None"
  by (simp add: USFM_TO_BOOK_NUM_def book_table_def lit_def)

lemma invalid_books_append:
  "invalid_books (xs @ ys) = invalid_books xs @ invalid_books ys"
  by (simp add: invalid_books_def)

lemma split_GEN: "py_split (lit ''GEN'') = [lit ''GEN'']"
  by (simp add: py_split_def lit_def py_isspace_def)

lemma split_MAT: "py_split (lit ''MAT'') = [lit ''MAT'']"
  by (simp add: py_split_def lit_def py_isspace_def)

lemma split_XYZ_GEN: "py_split (lit ''XYZ GEN'') = [lit ''XYZ'', lit ''GEN'']"
  by (simp add: py_split_def lit_def py_isspace_def)

lemma split_MAT_QQQ: "py_split (lit '' MAT  QQQ'') = [lit ''MAT'', lit ''QQQ'']"
  by (simp add: py_split_def lit_def py_isspace_def)

text \<open>
  C4. When every abbreviation of the list is a key of the table, \<open>get_book_prefixes\<close>
  returns the list of the table's values for them: one prefix for each abbreviation, in the
  order of the input, an abbreviation that occurs twice giving its prefix twice.
\<close>

theorem get_book_prefixes_lookups:
  assumes "\<forall>book\<in>set books. book \<in> dom USFM_TO_BOOK_NUM"
  shows "get_book_prefixes books = Inr (map (\<lambda>book. the (USFM_TO_BOOK_NUM book)) books)"
  using assms by (simp add: get_book_prefixes_valid invalid_books_empty_iff)

theorem get_book_prefixes_lookups_witness:
  "set [lit ''MAT'', lit ''GEN'', lit ''MAT''] \<subseteq> dom USFM_TO_BOOK_NUM \<and>
   get_book_prefixes [lit ''MAT'', lit ''GEN'', lit ''MAT''] =
     Inr [lit ''40'', lit ''01'', lit ''40'']"
proof -
  have h: "\<forall>book\<in>set [lit ''MAT'', lit ''GEN'', lit ''MAT'']. book \<in> dom USFM_TO_BOOK_NUM"
    by (simp add: dom_def lookup_MAT lookup_GEN)
  then have s: "set [lit ''MAT'', lit ''GEN'', lit ''MAT''] \<subseteq> dom USFM_TO_BOOK_NUM"
    by blast
  from get_book_prefixes_lookups [OF h]
  have "get_book_prefixes [lit ''MAT'', lit ''GEN'', lit ''MAT''] =
     Inr [lit ''40'', lit ''01'', lit ''40'']"
    by (simp add: lookup_MAT lookup_GEN)
  with s show ?thesis
    by (intro conjI)
qed

section \<open>The difference\<close>

text \<open>
  C3. For the vocabulary \<open>A\<close> of the first group and a finite vocabulary \<open>B\<close> of the second,
  the result \<open>R\<close> of the subtraction satisfies: every element of \<open>R\<close> is in \<open>B\<close> and not in
  \<open>A\<close>; every element of \<open>B\<close> is in \<open>A\<close> or in \<open>R\<close>; and the size of \<open>R\<close> is the size of
  \<open>B\<close> less the size of the intersection, which is no larger than \<open>B\<close>. The elements are
  the strings themselves, compared code point by code point.
\<close>

theorem unique_vocab_difference:
  assumes "finite B"
  shows "(\<forall>w\<in>unique_vocab A B. w \<in> B \<and> w \<notin> A) \<and>
         (\<forall>w\<in>B. w \<in> A \<or> w \<in> unique_vocab A B) \<and>
         card (unique_vocab A B) = card B - card (B \<inter> A) \<and>
         card (B \<inter> A) \<le> card B"
proof -
  have "card (B - A) = card B - card (B \<inter> A)"
    using assms by (simp add: card_Diff_subset_Int)
  moreover have "card (B \<inter> A) \<le> card B"
    using assms by (simp add: card_mono)
  ultimately show ?thesis by (simp add: unique_vocab_def)
qed

theorem unique_vocab_difference_witness:
  "finite {lit ''the'', lit ''kingdom''} \<and>
   unique_vocab {lit ''the''} {lit ''the'', lit ''kingdom''} = {lit ''kingdom''} \<and>
   card (unique_vocab {lit ''the''} {lit ''the'', lit ''kingdom''}) = 2 - 1"
proof -
  have f: "finite {lit ''the'', lit ''kingdom''}" by simp
  have c: "card {lit ''the'', lit ''kingdom''} = 2" by (simp add: lit_def)
  have i: "{lit ''the'', lit ''kingdom''} \<inter> {lit ''the''} = {lit ''the''}" by auto
  have d: "unique_vocab {lit ''the''} {lit ''the'', lit ''kingdom''} = {lit ''kingdom''}"
    by (auto simp: unique_vocab_def lit_def)
  from unique_vocab_difference [OF f, of "{lit ''the''}"] f c i d show ?thesis
    by simp
qed

section \<open>The loader\<close>

text \<open>
  C1, as the code has it. The loader trims the whole line before it splits it on tabs, so
  the fields it looks at are those of the trimmed line: leading and trailing whitespace of
  the line, tabs among it, is gone. The prefixes of a group are two characters long each
  (\<open>get_book_prefixes_length\<close>). For such prefixes and a file with a header line, the
  loader returns exactly the trimmed texts (field 2) of the data lines whose trimmed text
  splits into at least eight fields that meet the four conditions of \<open>included\<close>; and
  the step of the loop on any such line adds the trimmed text to the set if the fields
  meet the four conditions and leaves the set as it is otherwise.
\<close>

theorem load_vocabulary_inclusion:
  assumes "\<forall>p\<in>set book_prefixes. length p = 2"
    and "fs filename = Contents txt"
    and "file_lines txt = header # rest"
  shows "load_vocabulary fs filename book_prefixes =
           Inr {py_strip (split_on TAB (py_strip line) ! 2) | line.
                  line \<in> set rest \<and> 8 \<le> length (split_on TAB (py_strip line)) \<and>
                  included book_prefixes (split_on TAB (py_strip line))} \<and>
         (\<forall>line V. 8 \<le> length (split_on TAB (py_strip line)) \<longrightarrow>
            process_line book_prefixes line V =
              (if included book_prefixes (split_on TAB (py_strip line))
               then insert (py_strip (split_on TAB (py_strip line) ! 2)) V else V))"
proof -
  have "load_vocabulary fs filename book_prefixes =
          Inr (fold (process_line book_prefixes) rest {})"
    using assms(2,3) by (simp add: load_vocabulary_def)
  then show ?thesis
    using fold_process_line [OF assms(1), of rest "{}", unfolded fields_def]
      process_line_step [OF assms(1), unfolded fields_def]
    by simp
qed

theorem load_vocabulary_inclusion_witness:
  "map length [lit ''40''] = [2] \<and>
   sample_fs CORPUS = Contents sample_corpus \<and>
   file_lines sample_corpus = sample_header # sample_rows \<and>
   load_vocabulary sample_fs CORPUS [lit ''40''] = Inr {lit ''kingdom'', lit ''the''} \<and>
   {lit ''kingdom'', lit ''the''} =
     {py_strip (split_on TAB (py_strip line) ! 2) | line.
        line \<in> set sample_rows \<and> 8 \<le> length (split_on TAB (py_strip line)) \<and>
        included [lit ''40''] (split_on TAB (py_strip line))} \<and>
   process_line [lit ''40''] (sample_rows ! 3) {} = {} \<and>
   \<not> included [lit ''40''] (split_on TAB (py_strip (sample_rows ! 3)))"
proof -
  have h0: "map length [lit ''40''] = [2]"
    by (simp add: lit_def)
  then have h1: "\<forall>p\<in>set [lit ''40'']. length p = 2"
    by simp
  have h2: "sample_fs CORPUS = Contents sample_corpus"
    by (simp add: sample_fs_def)
  note t = load_vocabulary_inclusion [where fs = sample_fs and filename = CORPUS, OF h1 h2 sample_lines]
  from t sample_load have s:
    "{lit ''kingdom'', lit ''the''} =
       {py_strip (split_on TAB (py_strip line) ! 2) | line.
          line \<in> set sample_rows \<and> 8 \<le> length (split_on TAB (py_strip line)) \<and>
          included [lit ''40''] (split_on TAB (py_strip line))}"
    by simp
  have l: "8 \<le> length (split_on TAB (py_strip (sample_rows ! 3)))"
    by (simp add: sample_rows_def eval_defs)
  have p: "process_line [lit ''40''] (sample_rows ! 3) {} = {}"
    by (simp add: sample_rows_def process_line_def Let_def eval_defs)
  from t l have "process_line [lit ''40''] (sample_rows ! 3) {} =
      (if included [lit ''40''] (split_on TAB (py_strip (sample_rows ! 3)))
       then insert (py_strip (split_on TAB (py_strip (sample_rows ! 3)) ! 2)) {} else {})"
    by blast
  with p have n: "\<not> included [lit ''40''] (split_on TAB (py_strip (sample_rows ! 3)))"
    by (simp split: if_splits)
  from h0 h2 sample_lines sample_load s p n show ?thesis
    by (intro conjI)
qed

text \<open>
  On the tab-separated fields of the line as it stands in the file the rule fails in both
  directions. A line of eight fields whose last field is empty meets the four conditions
  and adds nothing, its trailing tab being trimmed away; and a line that begins with a
  space is added although the first two characters of its first field are no prefix of
  the group.
\<close>

theorem raw_fields_counterexample:
  "8 \<le> length (split_on TAB (seven_fields @ [TAB, LF])) \<and>
   included [lit ''40''] (split_on TAB (seven_fields @ [TAB, LF])) \<and>
   process_line [lit ''40''] (seven_fields @ [TAB, LF]) {} = {} \<and>
   8 \<le> length (split_on TAB ([SPACE] @ seven_fields @ [TAB] @ lit ''e'' @ [LF])) \<and>
   \<not> included [lit ''40''] (split_on TAB ([SPACE] @ seven_fields @ [TAB] @ lit ''e'' @ [LF])) \<and>
   process_line [lit ''40''] ([SPACE] @ seven_fields @ [TAB] @ lit ''e'' @ [LF]) {} = {lit ''word''}"
  by (simp add: process_line_def Let_def included_def seven_fields_def SPACE_def
        str_in_sublist [symmetric] eval_defs)

text \<open>
  C6. A data line that splits into fewer than eight fields is passed over: the step of the
  loop leaves the set as it is, and the loader returns, without an error, the set it
  returns for the file without that line. The line of the example has exactly seven fields
  and an id that begins with a prefix of the group.
\<close>

theorem short_line_skipped:
  assumes "length (fields line) < 8"
    and "fs filename = Contents txt"
    and "file_lines txt = header # before @ line # after"
  shows "process_line book_prefixes line V = V \<and>
         load_vocabulary fs filename book_prefixes =
           Inr (fold (process_line book_prefixes) (before @ after) {})"
proof -
  from assms(1) have skip: "process_line book_prefixes line W = W" for W
    by (rule process_line_short)
  have "load_vocabulary fs filename book_prefixes =
          Inr (fold (process_line book_prefixes) (before @ line # after) {})"
    using assms(2,3) by (simp add: load_vocabulary_def)
  with skip show ?thesis by simp
qed

theorem short_line_skipped_witness:
  "length (fields short_row) = 7 \<and>
   take 2 (fields short_row ! 0) \<in> set [lit ''40''] \<and>
   ragged_fs CORPUS = Contents (sample_header @ short_row) \<and>
   file_lines (sample_header @ short_row) = sample_header # [] @ short_row # [] \<and>
   process_line [lit ''40''] short_row {} = {} \<and>
   load_vocabulary ragged_fs CORPUS [lit ''40''] = Inr {}"
proof -
  have h1: "length (fields short_row) < 8"
    by (simp add: short_row_fields)
  have h2: "ragged_fs CORPUS = Contents (sample_header @ short_row)"
    by (simp add: ragged_fs_def)
  have p: "take 2 (fields short_row ! 0) \<in> set [lit ''40'']"
    by (simp add: short_row_def eval_defs)
  from short_line_skipped [where fs = ragged_fs and filename = CORPUS and V = "{}"
      and book_prefixes = "[lit ''40'']", OF h1 h2 ragged_lines]
    short_row_fields h2 p ragged_lines
  show ?thesis by simp
qed

text \<open>
  C9. Whenever the loader returns a set, every word in it is non-empty and is its own
  trimmed form: its first and its last character are not whitespace.
\<close>

theorem loaded_words_trimmed:
  assumes "load_vocabulary fs filename book_prefixes = Inr V"
  shows "\<forall>w\<in>V. w \<noteq> [] \<and> py_strip w = w \<and> \<not> py_isspace (hd w) \<and> \<not> py_isspace (last w)"
proof -
  from assms obtain body first rest where "fs filename = Contents body"
    and "file_lines body = first # rest"
    and V: "V = fold (process_line book_prefixes) rest {}"
    by (auto simp: load_vocabulary_def split: file_state.splits list.splits)
  have a: "\<forall>w\<in>V. w \<noteq> [] \<and> py_strip w = w"
    unfolding V by (rule fold_process_line_trimmed) simp
  show ?thesis
  proof
    fix w assume w: "w \<in> V"
    with a have n: "w \<noteq> []" and s: "py_strip w = w" by auto
    from n s have "py_strip w \<noteq> []" by simp
    then have "\<not> py_isspace (hd (py_strip w)) \<and> \<not> py_isspace (last (py_strip w))"
      by (rule py_strip_ends)
    with n s show "w \<noteq> [] \<and> py_strip w = w \<and> \<not> py_isspace (hd w) \<and> \<not> py_isspace (last w)"
      by simp
  qed
qed

theorem loaded_words_trimmed_witness:
  "load_vocabulary sample_fs CORPUS [lit ''40''] = Inr {lit ''kingdom'', lit ''the''} \<and>
   lit ''kingdom'' \<noteq> [] \<and> py_strip (lit ''kingdom'') = lit ''kingdom'' \<and>
   \<not> py_isspace (hd (lit ''kingdom'')) \<and> \<not> py_isspace (last (lit ''kingdom'')) \<and>
   lit ''the'' \<noteq> [] \<and> py_strip (lit ''the'') = lit ''the'' \<and>
   \<not> py_isspace (hd (lit ''the'')) \<and> \<not> py_isspace (last (lit ''the''))"
  using loaded_words_trimmed [OF sample_load] sample_load by simp

text \<open>
  C8. The line is trimmed before it is split, and a tab is whitespace. So a line whose raw
  text has eight or more tab-separated fields, of which all after the first seven or fewer
  are empty (the line ends in tabs, then its newline if it has one), has fewer than eight
  fields for the loader and is passed over. In the example the id, the text and the exclude
  field would let the record in: the same line with a non-empty eighth field is added.
\<close>

theorem trailing_tabs_skipped:
  assumes "length (split_on TAB x) < 8"
    and "8 \<le> length (split_on TAB (x @ replicate k TAB))"
    and "eol = [] \<or> eol = [LF]"
  shows "length (fields (x @ replicate k TAB @ eol)) < 8 \<and>
         process_line book_prefixes (x @ replicate k TAB @ eol) V = V"
proof -
  from assms(3) have "\<forall>c\<in>set (replicate k TAB @ eol). py_isspace c"
    by (auto simp: py_isspace_def TAB_def LF_def)
  then have "py_strip (x @ replicate k TAB @ eol) = py_strip x"
    by (rule py_strip_append_space)
  then have "length (fields (x @ replicate k TAB @ eol)) = Suc (count_list (py_strip x) TAB)"
    by (simp add: fields_def length_split_on)
  also have "\<dots> \<le> Suc (count_list x TAB)"
    by (simp add: count_list_py_strip)
  also have "\<dots> = length (split_on TAB x)"
    by (simp add: length_split_on)
  finally have "length (fields (x @ replicate k TAB @ eol)) < 8"
    using assms(1) by simp
  then show ?thesis
    by (simp add: process_line_short)
qed

theorem trailing_tabs_skipped_witness:
  "length (split_on TAB seven_fields) = 7 \<and>
   split_on TAB (seven_fields @ replicate 1 TAB) =
     [lit ''40001004'', lit ''a'', lit ''word'', lit ''b'', [], lit ''c'', lit ''d'', []] \<and>
   length (fields (seven_fields @ replicate 1 TAB @ [LF])) < 8 \<and>
   process_line [lit ''40''] (seven_fields @ replicate 1 TAB @ [LF]) {} = {} \<and>
   process_line [lit ''40''] (seven_fields @ [TAB] @ lit ''e'' @ [LF]) {} = {lit ''word''}"
proof -
  have h1: "length (split_on TAB seven_fields) = 7"
    by (simp add: seven_fields_def lit_def TAB_def)
  have h2: "split_on TAB (seven_fields @ replicate 1 TAB) =
     [lit ''40001004'', lit ''a'', lit ''word'', lit ''b'', [], lit ''c'', lit ''d'', []]"
    by (simp add: seven_fields_def lit_def TAB_def)
  have h3: "process_line [lit ''40''] (seven_fields @ [TAB] @ lit ''e'' @ [LF]) {} = {lit ''word''}"
    by (simp add: process_line_def Let_def seven_fields_def eval_defs)
  from h1 have a1: "length (split_on TAB seven_fields) < 8" by simp
  from h2 have a2: "8 \<le> length (split_on TAB (seven_fields @ replicate 1 TAB))" by simp
  have a3: "[LF] = [] \<or> [LF] = [LF]" by simp
  from trailing_tabs_skipped [OF a1 a2 a3, of "[lit ''40'']" "{}"] h1 h2 h3
  show ?thesis by simp
qed

section \<open>The whole program\<close>

lemma main_after_validation:
  assumes "invalid_books (py_split a @ py_split b) = []"
  shows "main [prog, a, b] fs =
     (let out1 = banner @
            print (lit ''First set of books: '' @ py_join (lit '' '') (py_split a)) @
            print (lit ''Second set of books: '' @ py_join (lit '' '') (py_split b)) @
            print [] @
            print (lit ''Loading vocabulary from first set...'')
      in
      case load_vocabulary fs CORPUS (map (\<lambda>book. the (USFM_TO_BOOK_NUM book)) (py_split a)) of
        Inl e \<Rightarrow> stop out1 e
      | Inr first_vocab \<Rightarrow>
     (let out2 = out1 @ print (lit ''Loading vocabulary from second set...'')
      in
      case load_vocabulary fs CORPUS (map (\<lambda>book. the (USFM_TO_BOOK_NUM book)) (py_split b)) of
        Inl e \<Rightarrow> stop out2 e
      | Inr second_vocab \<Rightarrow>
     (let unique = unique_vocab first_vocab second_vocab
      in
        (out2 @
         print ([LF] @ lit ''Vocabulary Statistics:'') @
         print (lit ''Words in first set: '' @ show_nat (card first_vocab)) @
         print (lit ''Words in second set: '' @ show_nat (card second_vocab)) @
         print (lit ''Unique words in second set: '' @ show_nat (card unique)) @
         report (py_split b) unique,
         0))))"
proof -
  from assms have ia: "invalid_books (py_split a) = []" and ib: "invalid_books (py_split b) = []"
    by (simp_all add: invalid_books_append)
  have v: "validate_books (py_split a @ py_split b) = Inr ()"
    using assms by (simp add: validate_books_def)
  show ?thesis
    by (simp add: main_def v get_book_prefixes_valid [OF ia] get_book_prefixes_valid [OF ib])
qed

lemma load_vocabulary_empty:
  "fs filename = Contents [] \<Longrightarrow>
     load_vocabulary fs filename book_prefixes =
       Inl (SysExit (print (lit ''Error reading file: '')) 1)"
  by (simp add: load_vocabulary_def file_lines_def)

text \<open>
  C10. A corpus file that exists and holds no line at all does not give an empty set: the
  loader ends the process with status 1 after printing the general message for a failed
  read, with nothing after the colon. For two valid groups the program's output ends with
  that message and its exit status is 1.
\<close>

theorem empty_corpus_read_failure:
  assumes "argv = [prog, a, b]"
    and "invalid_books (py_split a @ py_split b) = []"
    and "fs CORPUS = Contents []"
  shows "load_vocabulary fs CORPUS book_prefixes =
           Inl (SysExit (print (lit ''Error reading file: '')) 1) \<and>
         main argv fs =
           (banner @
            print (lit ''First set of books: '' @ py_join (lit '' '') (py_split a)) @
            print (lit ''Second set of books: '' @ py_join (lit '' '') (py_split b)) @
            print [] @
            print (lit ''Loading vocabulary from first set...'') @
            print (lit ''Error reading file: ''),
            1)"
  using assms(3)
  by (simp add: assms(1) main_after_validation [OF assms(2)] load_vocabulary_empty stop_def)

theorem empty_corpus_read_failure_witness:
  "invalid_books (py_split (lit ''GEN'') @ py_split (lit ''MAT'')) = [] \<and>
   empty_fs CORPUS = Contents [] \<and>
   load_vocabulary empty_fs CORPUS [lit ''01''] =
     Inl (SysExit (print (lit ''Error reading file: '')) 1) \<and>
   main [lit ''vocabfind.py'', lit ''GEN'', lit ''MAT''] empty_fs =
     (banner @
      print (lit ''First set of books: GEN'') @
      print (lit ''Second set of books: MAT'') @
      print [] @
      print (lit ''Loading vocabulary from first set...'') @
      print (lit ''Error reading file: ''),
      1)"
proof -
  have h2: "invalid_books (py_split (lit ''GEN'') @ py_split (lit ''MAT'')) = []"
    by (simp add: split_GEN split_MAT invalid_books_def lookup_GEN lookup_MAT)
  have h3: "empty_fs CORPUS = Contents []"
    by (simp add: empty_fs_def)
  note t = empty_corpus_read_failure [where prog = "lit ''vocabfind.py''" and fs = empty_fs
      and book_prefixes = "[lit ''01'']", OF refl h2 h3]
  have j1: "lit ''First set of books: '' @ py_join (lit '' '') (py_split (lit ''GEN'')) =
            lit ''First set of books: GEN''"
    unfolding split_GEN by (simp add: lit_def)
  have j2: "lit ''Second set of books: '' @ py_join (lit '' '') (py_split (lit ''MAT'')) =
            lit ''Second set of books: MAT''"
    unfolding split_MAT by (simp add: lit_def)
  from t have l: "load_vocabulary empty_fs CORPUS [lit ''01''] =
      Inl (SysExit (print (lit ''Error reading file: '')) 1)"
    by (rule conjunct1)
  from t have m: "main [lit ''vocabfind.py'', lit ''GEN'', lit ''MAT''] empty_fs =
     (banner @
      print (lit ''First set of books: GEN'') @
      print (lit ''Second set of books: MAT'') @
      print [] @
      print (lit ''Loading vocabulary from first set...'') @
      print (lit ''Error reading file: ''),
      1)"
    unfolding j1 j2 by (rule conjunct2)
  from h2 h3 l m show ?thesis
    by (intro conjI)
qed

text \<open>
  C5. When an abbreviation of either argument is not a key of the table, the program prints
  the banner and the validation error and ends with status 1. The error line holds all the
  abbreviations that are not keys, in the order of the arguments, joined by a comma and a
  space; so every one of them occurs in the output.
\<close>

theorem unknown_books_abort:
  assumes "argv = [prog, a, b]"
    and "\<exists>book\<in>set (py_split a @ py_split b). USFM_TO_BOOK_NUM book = None"
  shows "main argv fs =
           (banner @
            print (lit ''Error: Unrecognized book abbreviations: '' @
                   py_join (lit '', '')
                     (filter (\<lambda>book. USFM_TO_BOOK_NUM book = None) (py_split a @ py_split b))) @
            print (lit ''Valid abbreviations include: GEN, EXO, MAT, MRK, ROM, etc.''),
            1) \<and>
         (\<forall>book\<in>set (py_split a @ py_split b).
            USFM_TO_BOOK_NUM book = None \<longrightarrow> sublist book (fst (main argv fs)))"
proof -
  define bad where "bad = filter (\<lambda>book. USFM_TO_BOOK_NUM book = None) (py_split a @ py_split b)"
  from assms(2) have ne: "invalid_books (py_split a @ py_split b) \<noteq> []"
    by (auto simp: invalid_books_def filter_empty_conv)
  have m: "main argv fs =
      (banner @ print (lit ''Error: Unrecognized book abbreviations: '' @ py_join (lit '', '') bad) @
       print (lit ''Valid abbreviations include: GEN, EXO, MAT, MRK, ROM, etc.''), 1)"
    using ne by (simp add: assms(1) main_def validate_books_def stop_def bad_def invalid_books_def)
  have "sublist book (fst (main argv fs))" if "book \<in> set bad" for book
  proof -
    from that have "sublist book (py_join (lit '', '') bad)"
      by (rule sublist_py_join)
    then obtain ps ss where "py_join (lit '', '') bad = ps @ book @ ss"
      by (auto simp: sublist_def)
    then have "fst (main argv fs) =
        (banner @ lit ''Error: Unrecognized book abbreviations: '' @ ps) @ book @
        (ss @ [LF] @ print (lit ''Valid abbreviations include: GEN, EXO, MAT, MRK, ROM, etc.''))"
      by (simp add: m print_def)
    then show ?thesis
      unfolding sublist_def by blast
  qed
  with m show ?thesis
    by (simp add: bad_def)
qed

theorem unknown_books_abort_witness:
  "(\<exists>book\<in>set (py_split (lit ''XYZ GEN'') @ py_split (lit '' MAT  QQQ'')).
      USFM_TO_BOOK_NUM book = None) \<and>
   main [lit ''vocabfind.py'', lit ''XYZ GEN'', lit '' MAT  QQQ''] sample_fs =
     (banner @
      print (lit ''Error: Unrecognized book abbreviations: XYZ, QQQ'') @
      print (lit ''Valid abbreviations include: GEN, EXO, MAT, MRK, ROM, etc.''),
      1) \<and>
   sublist (lit ''XYZ'') (fst (main [lit ''vocabfind.py'', lit ''XYZ GEN'', lit '' MAT  QQQ''] sample_fs)) \<and>
   sublist (lit ''QQQ'') (fst (main [lit ''vocabfind.py'', lit ''XYZ GEN'', lit '' MAT  QQQ''] sample_fs))"
proof -
  have h: "\<exists>book\<in>set (py_split (lit ''XYZ GEN'') @ py_split (lit '' MAT  QQQ'')).
      USFM_TO_BOOK_NUM book = None"
    by (simp add: split_XYZ_GEN split_MAT_QQQ lookup_XYZ)
  have j: "lit ''Error: Unrecognized book abbreviations: '' @
           py_join (lit '', '') [lit ''XYZ'', lit ''QQQ''] =
           lit ''Error: Unrecognized book abbreviations: XYZ, QQQ''"
    by (simp add: lit_def)
  note t = unknown_books_abort [where prog = "lit ''vocabfind.py''" and fs = sample_fs, OF refl h]
  from t j have m: "main [lit ''vocabfind.py'', lit ''XYZ GEN'', lit '' MAT  QQQ''] sample_fs =
     (banner @
      print (lit ''Error: Unrecognized book abbreviations: XYZ, QQQ'') @
      print (lit ''Valid abbreviations include: GEN, EXO, MAT, MRK, ROM, etc.''),
      1)"
    by (simp add: split_XYZ_GEN split_MAT_QQQ lookup_XYZ lookup_GEN lookup_MAT lookup_QQQ)
  from t have s: "\<forall>book\<in>set (py_split (lit ''XYZ GEN'') @ py_split (lit '' MAT  QQQ'')).
      USFM_TO_BOOK_NUM book = None \<longrightarrow>
      sublist book (fst (main [lit ''vocabfind.py'', lit ''XYZ GEN'', lit '' MAT  QQQ''] sample_fs))"
    by (rule conjunct2)
  from s have s1: "sublist (lit ''XYZ'')
      (fst (main [lit ''vocabfind.py'', lit ''XYZ GEN'', lit '' MAT  QQQ''] sample_fs))"
    by (simp add: split_XYZ_GEN split_MAT_QQQ lookup_XYZ)
  from s have s2: "sublist (lit ''QQQ'')
      (fst (main [lit ''vocabfind.py'', lit ''XYZ GEN'', lit '' MAT  QQQ''] sample_fs))"
    by (simp add: split_XYZ_GEN split_MAT_QQQ lookup_QQQ)
  from h m s1 s2 show ?thesis
    by (intro conjI)
qed

section \<open>The punctuation rule\<close>

text \<open>
  C2, as the code has it. The test \<open>in\<close> on two strings is the substring test, so the
  rule rejects a token exactly when the token occurs as a contiguous run of the punctuation
  string. A rejected token has at most fourteen characters, all of them glyphs of the
  string; a token of one character is rejected exactly when it is one of the glyphs; a
  token with a character that is not a glyph is not rejected.
\<close>

theorem punctuation_rule_substring:
  "(str_in token PUNCTUATION \<longleftrightarrow> sublist token PUNCTUATION) \<and>
   (str_in token PUNCTUATION \<longrightarrow> length token \<le> 14 \<and> set token \<subseteq> set PUNCTUATION) \<and>
   (length token = 1 \<longrightarrow> (str_in token PUNCTUATION \<longleftrightarrow> hd token \<in> set PUNCTUATION)) \<and>
   ((\<exists>c\<in>set token. c \<notin> set PUNCTUATION) \<longrightarrow> \<not> str_in token PUNCTUATION)"
proof -
  have l: "length PUNCTUATION = 14"
    by (simp add: PUNCTUATION_def)
  have a: "length token \<le> 14 \<and> set token \<subseteq> set PUNCTUATION" if "sublist token PUNCTUATION"
    using that sublist_length_le [of token PUNCTUATION] set_mono_sublist [of token PUNCTUATION] l
    by simp
  have b: "sublist token PUNCTUATION \<longleftrightarrow> hd token \<in> set PUNCTUATION" if "length token = 1"
  proof -
    from that obtain c where "token = [c]"
      by (cases token) auto
    then show ?thesis by (simp add: sublist_singleton)
  qed
  from a b show ?thesis
    unfolding str_in_sublist by blast
qed

theorem punctuation_rule_substring_witness:
  "str_in comma_stop PUNCTUATION \<and> sublist comma_stop PUNCTUATION \<and>
   length comma_stop \<le> 14 \<and> set comma_stop \<subseteq> set PUNCTUATION \<and>
   length [65292 :: nat] = 1 \<and> hd [65292 :: nat] \<in> set PUNCTUATION \<and> str_in [65292] PUNCTUATION \<and>
   (\<exists>c\<in>set comma_hello. c \<notin> set PUNCTUATION) \<and> \<not> str_in comma_hello PUNCTUATION"
proof -
  have s: "str_in comma_stop PUNCTUATION"
    by (simp add: comma_stop_def PUNCTUATION_def)
  have h: "hd [65292 :: nat] \<in> set PUNCTUATION"
    by (simp add: PUNCTUATION_def)
  have e: "\<exists>c\<in>set comma_hello. c \<notin> set PUNCTUATION"
    by (simp add: comma_hello_def PUNCTUATION_def lit_def)
  have l: "length [65292 :: nat] = 1"
    by simp
  from punctuation_rule_substring [of comma_stop] punctuation_rule_substring [of "[65292]"]
    punctuation_rule_substring [of comma_hello] s h e l
  show ?thesis by blast
qed

text \<open>
  The rule does reject a token of more than one character: the full-width comma followed
  by the full-width full stop is a run of the string, and a record with that text and a
  matching prefix adds nothing, where the comma followed by \<open>hello\<close> is added.
\<close>

theorem punctuation_run_counterexample:
  "1 < length comma_stop \<and> py_strip comma_stop = comma_stop \<and>
   str_in comma_stop PUNCTUATION \<and>
   process_line [lit ''40'']
     (sample_row [lit ''40001005'', lit ''a'', comma_stop, lit ''b'', [], lit ''c'', lit ''d'', lit ''e''])
     {} = {} \<and>
   process_line [lit ''40'']
     (sample_row [lit ''40001005'', lit ''a'', comma_hello, lit ''b'', [], lit ''c'', lit ''d'', lit ''e''])
     {} = {comma_hello}"
  by (simp add: process_line_def Let_def comma_stop_def comma_hello_def eval_defs)

section \<open>The report\<close>

lemma six_per_row_Nil: "six_per_row [] = []"
  by (simp add: six_per_row.simps)

lemma print_columns_append:
  "print_columns i (xs @ ys) = print_columns i xs @ print_columns (i + length xs) ys"
  by (induction xs arbitrary: i) simp_all

lemma print_columns_no_break:
  "\<forall>j<length xs. (i + j) mod 6 \<noteq> 0 \<Longrightarrow> print_columns i xs = concat (map (ljust 10) xs)"
proof (induction xs arbitrary: i)
  case Nil
  show ?case by simp
next
  case (Cons x xs)
  from Cons.prems have "(i + 0) mod 6 \<noteq> 0" by blast
  then have i: "i mod 6 \<noteq> 0" by simp
  have "\<forall>j<length xs. (Suc i + j) mod 6 \<noteq> 0"
  proof (intro allI impI)
    fix j assume "j < length xs"
    then have "Suc j < length (x # xs)" by simp
    with Cons.prems have "(i + Suc j) mod 6 \<noteq> 0" by blast
    then show "(Suc i + j) mod 6 \<noteq> 0" by simp
  qed
  then have "print_columns (Suc i) xs = concat (map (ljust 10) xs)"
    by (rule Cons.IH)
  with i show ?case by simp
qed

lemma print_columns_short:
  assumes "i mod 6 = 1" and "length xs < 6"
  shows "print_columns i xs = concat (map (ljust 10) xs)"
proof (rule print_columns_no_break, intro allI impI)
  fix j assume "j < length xs"
  with assms show "(i + j) mod 6 \<noteq> 0" by presburger
qed

lemma print_columns_full:
  assumes "i mod 6 = 1" and "length xs = 6"
  shows "print_columns i xs = render_row xs"
proof -
  from assms(2) obtain ys z where xs: "xs = ys @ [z]" and ys: "length ys = 5"
    by (cases xs rule: rev_cases) auto
  from assms(1) ys have "print_columns i ys = concat (map (ljust 10) ys)"
    by (simp add: print_columns_short)
  moreover from assms(1) have "(i + 5) mod 6 = 0" by presburger
  ultimately show ?thesis
    by (simp add: xs ys print_columns_append render_row_def print_def)
qed

lemma print_columns_rows:
  "i mod 6 = 1 \<Longrightarrow>
     print_columns i ws @ (if length ws mod 6 \<noteq> 0 then print [] else []) =
       concat (map render_row (six_per_row ws))"
proof (induction ws arbitrary: i rule: six_per_row.induct)
  case (1 ws)
  show ?case
  proof (cases "ws = []")
    case True
    then show ?thesis by (simp add: six_per_row_Nil)
  next
    case False
    show ?thesis
    proof (cases "length ws < 6")
      case True
      with False have r: "six_per_row ws = [ws]"
        by (simp add: six_per_row.simps [of ws] six_per_row.simps [of "[]"])
      from True False have "length ws mod 6 \<noteq> 0" by simp
      with "1.prems" True r show ?thesis
        by (simp add: print_columns_short render_row_def print_def)
    next
      case long: False
      then have l: "length (take 6 ws) = 6" by simp
      from "1.prems" have i6: "(i + 6) mod 6 = 1" by presburger
      have ws: "ws = take 6 ws @ drop 6 ws" by simp
      have "print_columns i ws = print_columns i (take 6 ws) @ print_columns (i + 6) (drop 6 ws)"
        using print_columns_append [of i "take 6 ws" "drop 6 ws"] l by simp
      then have p: "print_columns i ws = render_row (take 6 ws) @ print_columns (i + 6) (drop 6 ws)"
        using "1.prems" l by (simp add: print_columns_full)
      from long have m: "length ws mod 6 = length (drop 6 ws) mod 6"
        by (simp add: le_mod_geq)
      have "print_columns (i + 6) (drop 6 ws) @
              (if length (drop 6 ws) mod 6 \<noteq> 0 then print [] else []) =
            concat (map render_row (six_per_row (drop 6 ws)))"
        using False i6 by (rule "1.IH")
      with p m False show ?thesis
        by (simp add: six_per_row.simps [of ws])
    qed
  qed
qed

lemma six_per_row_concat: "concat (six_per_row ws) = ws"
proof (induction ws rule: six_per_row.induct)
  case (1 ws)
  then show ?case
    by (cases "ws = []") (simp_all add: six_per_row_Nil six_per_row.simps [of ws])
qed

lemma six_per_row_lengths: "\<forall>r\<in>set (six_per_row ws). 1 \<le> length r \<and> length r \<le> 6"
proof (induction ws rule: six_per_row.induct)
  case (1 ws)
  show ?case
  proof (cases "ws = []")
    case True
    then show ?thesis by (simp add: six_per_row_Nil)
  next
    case False
    then have "1 \<le> length (take 6 ws)"
      by (cases ws) simp_all
    with False "1.IH" show ?thesis
      by (simp add: six_per_row.simps [of ws])
  qed
qed

lemma six_per_row_full: "\<forall>r\<in>set (butlast (six_per_row ws)). length r = 6"
proof (induction ws rule: six_per_row.induct)
  case (1 ws)
  show ?case
  proof (cases "ws = []")
    case True
    then show ?thesis by (simp add: six_per_row_Nil)
  next
    case False
    show ?thesis
    proof (cases "drop 6 ws = []")
      case True
      with False show ?thesis
        by (simp add: six_per_row.simps [of ws] six_per_row.simps [of "[]"])
    next
      case d: False
      then have "6 < length ws" by simp
      then have "length (take 6 ws) = 6" by simp
      moreover from d have "six_per_row (drop 6 ws) \<noteq> []"
        by (simp add: six_per_row.simps [of "drop 6 ws"])
      ultimately show ?thesis
        using False "1.IH" by (simp add: six_per_row.simps [of ws])
    qed
  qed
qed

lemma report_rows:
  "report second_books unique =
     (if unique = {} then
        print ([LF] @ lit ''No unique vocabulary found in '' @
               py_join (lit '' '') second_books @ lit ''.'') @
        print (lit ''All words in the second set also appear in the first set.'')
      else
        print ([LF] @ lit ''Unique vocabulary found in '' @
               py_join (lit '' '') second_books @ lit '':'') @
        print (replicate 40 (of_char CHR ''-'')) @
        concat (map render_row (six_per_row (sorted_list_of_set unique))) @
        print ([LF] @ lit ''Total unique words: '' @ show_nat (card unique)))"
proof -
  have "print_columns 1 ws @ (if length ws mod 6 \<noteq> 0 then print [] else []) =
          concat (map render_row (six_per_row ws))" for ws
    by (rule print_columns_rows) simp
  from this [of "sorted_list_of_set unique"] show ?thesis
    by (auto simp: report_def Let_def)
qed

lemma sorted_seven_words:
  "sorted_list_of_set seven_words =
     [lit ''a'', lit ''b'', lit ''c'', lit ''d'', lit ''e'', lit ''f'', lit ''g'']"
  by (simp add: seven_words_def lit_def)

lemma card_seven_words: "card seven_words = 7"
  by (simp add: seven_words_def lit_def)

lemma six_per_row_seven:
  "six_per_row [a, b, c, d, e, f, g] = [[a, b, c, d, e, f], [g]]"
  by (simp add: six_per_row.simps [of "[a, b, c, d, e, f, g]"] six_per_row.simps [of "[g]"]
        six_per_row_Nil)

text \<open>
  C7, as the code has it. For a finite difference set the report is the notice when the
  set is empty, and otherwise the heading, the rows of the sorted words and the line of the
  total. The sorted list is in ascending order without repetition and holds the words of
  the set. Its rows hold six words each, but for the last one, which holds the remaining
  one to six words. Every word begins its field and is padded with spaces to ten
  characters; a word of ten or more characters is printed whole and without padding.
\<close>

theorem report_layout:
  assumes "finite unique"
  shows "report second_books unique =
     (if unique = {} then
        print ([LF] @ lit ''No unique vocabulary found in '' @
               py_join (lit '' '') second_books @ lit ''.'') @
        print (lit ''All words in the second set also appear in the first set.'')
      else
        print ([LF] @ lit ''Unique vocabulary found in '' @
               py_join (lit '' '') second_books @ lit '':'') @
        print (replicate 40 (of_char CHR ''-'')) @
        concat (map render_row (six_per_row (sorted_list_of_set unique))) @
        print ([LF] @ lit ''Total unique words: '' @ show_nat (card unique))) \<and>
     sorted (sorted_list_of_set unique) \<and>
     distinct (sorted_list_of_set unique) \<and>
     set (sorted_list_of_set unique) = unique \<and>
     concat (six_per_row (sorted_list_of_set unique)) = sorted_list_of_set unique \<and>
     (\<forall>r\<in>set (six_per_row (sorted_list_of_set unique)). 1 \<le> length r \<and> length r \<le> 6) \<and>
     (\<forall>r\<in>set (butlast (six_per_row (sorted_list_of_set unique))). length r = 6) \<and>
     (\<forall>w. prefix w (ljust 10 w) \<and> length (ljust 10 w) = max 10 (length w))"
  using assms report_rows [of second_books unique]
    six_per_row_concat [of "sorted_list_of_set unique"]
    six_per_row_lengths [of "sorted_list_of_set unique"]
    six_per_row_full [of "sorted_list_of_set unique"]
    length_ljust prefix_ljust
  by simp

theorem report_layout_witness:
  "finite seven_words \<and>
   report [lit ''MAT''] seven_words =
     print ([LF] @ lit ''Unique vocabulary found in MAT:'') @
     print (replicate 40 (of_char CHR ''-'')) @
     print (lit ''a         b         c         d         e         f         '') @
     print (lit ''g         '') @
     print ([LF] @ lit ''Total unique words: 7'')"
proof -
  have f: "finite seven_words"
    by (simp add: seven_words_def)
  have n: "seven_words \<noteq> {}"
    by (simp add: seven_words_def)
  have r1: "render_row [lit ''a'', lit ''b'', lit ''c'', lit ''d'', lit ''e'', lit ''f''] =
            print (lit ''a         b         c         d         e         f         '')"
    by (simp add: render_row_def ljust_def lit_def SPACE_def replicate_9 replicate_3)
  have r2: "render_row [lit ''g''] = print (lit ''g         '')"
    by (simp add: render_row_def ljust_def lit_def SPACE_def replicate_9 replicate_3)
  have t: "lit ''Total unique words: '' @ show_nat 7 = lit ''Total unique words: 7''"
    by (simp add: show_nat.simps lit_def)
  have h: "lit ''Unique vocabulary found in '' @ py_join (lit '' '') [lit ''MAT''] @ lit '':'' =
           lit ''Unique vocabulary found in MAT:''"
    by (simp add: lit_def)
  from report_layout [OF f, of "[lit ''MAT'']"] n
  have "report [lit ''MAT''] seven_words =
     print ([LF] @ lit ''Unique vocabulary found in '' @ py_join (lit '' '') [lit ''MAT''] @ lit '':'') @
     print (replicate 40 (of_char CHR ''-'')) @
     concat (map render_row (six_per_row (sorted_list_of_set seven_words))) @
     print ([LF] @ lit ''Total unique words: '' @ show_nat (card seven_words))"
    by simp
  then have "report [lit ''MAT''] seven_words =
     print ([LF] @ lit ''Unique vocabulary found in MAT:'') @
     print (replicate 40 (of_char CHR ''-'')) @
     (render_row [lit ''a'', lit ''b'', lit ''c'', lit ''d'', lit ''e'', lit ''f''] @
      render_row [lit ''g'']) @
     print ([LF] @ lit ''Total unique words: 7'')"
    unfolding sorted_seven_words card_seven_words six_per_row_seven h t by simp
  with f show ?thesis
    by (simp only: r1 r2 append_assoc)
qed

text \<open>
  A difference of one word gives a single row of one word, not of six; and two words of
  more than ten characters are printed with nothing between them.
\<close>

theorem report_rows_counterexample:
  "report [lit ''MAT''] {lit ''kingdom''} =
     print ([LF] @ lit ''Unique vocabulary found in MAT:'') @
     print (replicate 40 (of_char CHR ''-'')) @
     print (lit ''kingdom   '') @
     print ([LF] @ lit ''Total unique words: 1'') \<and>
   report [lit ''ROM''] {lit ''righteousness'', lit ''unrighteousness''} =
     print ([LF] @ lit ''Unique vocabulary found in ROM:'') @
     print (replicate 40 (of_char CHR ''-'')) @
     print (lit ''righteousnessunrighteousness'') @
     print ([LF] @ lit ''Total unique words: 2'')"
  by (simp add: report_def Let_def ljust_def show_nat.simps print_def lit_def SPACE_def LF_def
        replicate_9 replicate_3)

end
